theory Spec2Isabelle
  imports Main "HOL-Library.Char_ord" "HOL-Library.List_Lexorder" "HOL-Library.Sublist"
begin

section \<open>The radar loop script\<close>

text \<open>
  A shallow embedding of \<^verbatim>\<open>radar_script.py\<close>: the script lists the scans of one
  station and one day, keeps the latest five, renders each as a PNG and joins the PNGs
  into a looping GIF. The script has no functions of its own; each definition below is a
  block of the script and is named after the variable the block assigns.

  Strings are \<^typ>\<open>string\<close>, lists of bytes. Python compares \<^verbatim>\<open>str\<close> values code
  point by code point; on UTF-8 text the byte-wise lexicographic order is the same order,
  and \<^verbatim>\<open>startswith\<close> is the same test.
\<close>

subsection \<open>Configuration (lines 19 to 22)\<close>

definition FOLDER :: string where
  "FOLDER = ''nexrad''"

definition GIF_FILENAME :: string where
  "GIF_FILENAME = ''radar_loop.gif''"

definition BASE_URL :: string where
  "BASE_URL = ''https://unidata-nexrad-level3.s3.amazonaws.com/''"

definition STATION :: string where
  "STATION = ''MOB_N0B''"

subsection \<open>Choosing the keys (lines 25 to 44)\<close>

text \<open>
  \<^verbatim>\<open>utc_date = sys.argv[1] if len(sys.argv) > 1 else datetime.utcnow().strftime(...)\<close>:
  the clock's formatted date is the argument \<open>today\<close>.
\<close>

definition utc_date :: "string list \<Rightarrow> string \<Rightarrow> string" where
  "utc_date argv today = (if length argv > 1 then argv ! 1 else today)"

text \<open>\<^verbatim>\<open>k.text.startswith(p)\<close>.\<close>

definition startswith :: "string \<Rightarrow> string \<Rightarrow> bool" where
  "startswith s p = prefix p s"

text \<open>
  Lines 43 and 44. \<open>found\<close> is the text of every \<^verbatim>\<open>key\<close> element of the listing, in
  document order. \<^verbatim>\<open>sorted(keys)[-5:]\<close> keeps the last five of the sorted list, and
  the whole list when it has fewer than five entries: the slice starts at
  \<open>max (len - 5) 0\<close>, which is the truncating subtraction of \<^typ>\<open>nat\<close>.
\<close>

definition keys :: "string \<Rightarrow> string list \<Rightarrow> string list" where
  "keys date found =
     (let keys0 = filter (\<lambda>k. startswith k (STATION @ ''_'' @ date)) found;
          sorted_keys = sort keys0
      in drop (length sorted_keys - 5) sorted_keys)"

subsection \<open>Errors\<close>

text \<open>
  Nothing in the script catches an exception, so every exception ends the run. The
  constructors name the exception by where it is raised:
  \<^item> \<open>RequestException\<close>: \<^verbatim>\<open>requests.get\<close> or \<^verbatim>\<open>raise_for_status\<close> (lines 39, 40, 63, 64);
  \<^item> \<open>DecodeError\<close>: \<^verbatim>\<open>pyart.io.read_nexrad_level3\<close>, or reading the scan time (lines 67, 96 to 98);
  \<^item> \<open>RenderError\<close>: plotting or \<^verbatim>\<open>plt.savefig\<close> (lines 70 to 93, 103 to 111);
  \<^item> \<open>OverflowError\<close>: \<^verbatim>\<open>datetime\<close> arithmetic leaving the supported range (line 99);
  \<^item> \<open>OSError\<close>: \<^verbatim>\<open>os.makedirs\<close> or \<^verbatim>\<open>Image.open\<close> (lines 31, 126);
  \<^item> \<open>IndexError\<close>: \<^verbatim>\<open>images[0]\<close> on the empty list (line 133).
\<close>

datatype error =
  RequestException | DecodeError | RenderError | OverflowError | OSError | IndexError

subsection \<open>Dates and times (line 99)\<close>

text \<open>
  Python's \<^verbatim>\<open>timedelta\<close> holds days, seconds and microseconds, normalised by its
  constructor so that \<open>0 \<le> seconds < 86400\<close> and \<open>0 \<le> microseconds < 1000000\<close>.
  \<open>timedelta_of\<close> is the constructor on integer arguments; Python's \<^verbatim>\<open>divmod\<close> on
  integers rounds down, as \<open>div\<close> and \<open>mod\<close> on \<^typ>\<open>int\<close> do. The constructor's
  range check on the days (a magnitude of at most 999999999) is left out: the sums
  formed below stay far inside it.
\<close>

record timedelta =
  days :: int
  seconds :: int
  microseconds :: int

definition timedelta_of :: "int \<Rightarrow> int \<Rightarrow> int \<Rightarrow> int \<Rightarrow> int \<Rightarrow> timedelta" where
  "timedelta_of d h m s us =
     (let s1 = h * 3600 + m * 60 + s + us div 1000000
      in \<lparr>days = d + s1 div 86400, seconds = s1 mod 86400, microseconds = us mod 1000000\<rparr>)"

definition timedelta_neg :: "timedelta \<Rightarrow> timedelta" where
  "timedelta_neg t = timedelta_of (- days t) 0 0 (- seconds t) (- microseconds t)"

definition timedelta_add :: "timedelta \<Rightarrow> timedelta \<Rightarrow> timedelta" where
  "timedelta_add a b =
     timedelta_of (days a + days b) 0 0 (seconds a + seconds b) (microseconds a + microseconds b)"

text \<open>
  A naive \<^verbatim>\<open>datetime\<close>. Its calendar date is kept as the proleptic Gregorian ordinal
  (\<^verbatim>\<open>toordinal()\<close>, day 1 is 0001-01-01), which \<^verbatim>\<open>date.fromordinal\<close> maps back to
  year, month and day one to one.
\<close>

record datetime =
  ordinal :: int
  hour :: int
  minute :: int
  second :: int
  microsecond :: int

definition MAXORDINAL :: int where
  "MAXORDINAL = 3652059"

definition valid_datetime :: "datetime \<Rightarrow> bool" where
  "valid_datetime t \<longleftrightarrow>
     1 \<le> ordinal t \<and> ordinal t \<le> MAXORDINAL \<and> 0 \<le> hour t \<and> hour t < 24 \<and>
     0 \<le> minute t \<and> minute t < 60 \<and> 0 \<le> second t \<and> second t < 60 \<and>
     0 \<le> microsecond t \<and> microsecond t < 1000000"

text \<open>
  \<^verbatim>\<open>datetime.__add__\<close>: the datetime as a timedelta since day 0, plus the other
  timedelta, split back into date and time; \<^verbatim>\<open>OverflowError\<close> outside the range of
  ordinals. \<^verbatim>\<open>datetime.__sub__\<close> adds the negated timedelta.
\<close>

definition datetime_add :: "datetime \<Rightarrow> timedelta \<Rightarrow> error + datetime" where
  "datetime_add t other =
     (let delta = timedelta_add
                    (timedelta_of (ordinal t) (hour t) (minute t) (second t) (microsecond t))
                    other;
          rem = seconds delta mod 3600
      in if 0 < days delta \<and> days delta \<le> MAXORDINAL
         then Inr \<lparr>ordinal = days delta, hour = seconds delta div 3600, minute = rem div 60,
                   second = rem mod 60, microsecond = microseconds delta\<rparr>
         else Inl OverflowError)"

definition datetime_sub :: "datetime \<Rightarrow> timedelta \<Rightarrow> error + datetime" where
  "datetime_sub t other = datetime_add t (timedelta_neg other)"

text \<open>Line 99: \<^verbatim>\<open>cdt_dt = utc_dt - timedelta(hours=5)\<close>.\<close>

definition cdt_dt :: "datetime \<Rightarrow> error + datetime" where
  "cdt_dt utc = datetime_sub utc (timedelta_of 0 5 0 0 0)"

text \<open>The position of a datetime on the time line, in microseconds since the start of day 0.\<close>

definition timestamp_us :: "datetime \<Rightarrow> int" where
  "timestamp_us t =
     (((ordinal t * 24 + hour t) * 60 + minute t) * 60 + second t) * 1000000 + microsecond t"

subsection \<open>Files and images\<close>

text \<open>
  An image object is the record of how it was made: opened from a file of some pixel
  size, or the result of \<^verbatim>\<open>img.resize(size, filter)\<close>. Pixel values are not modelled.
  \<open>resample\<close> lists the resampling filters of the imaging library.
\<close>

type_synonym path = string
type_synonym size = "nat \<times> nat"

datatype resample = NEAREST | BOX | BILINEAR | HAMMING | BICUBIC | LANCZOS

datatype image = Opened path size | Resized image size resample

fun image_size :: "image \<Rightarrow> size" where
  "image_size (Opened p s) = s"
| "image_size (Resized i s f) = s"

fun image_source :: "image \<Rightarrow> path" where
  "image_source (Opened p s) = p"
| "image_source (Resized i s f) = image_source i"

text \<open>
  What \<^verbatim>\<open>save(..., save_all=True, append_images=..., duration=..., loop=...)\<close> is
  given: the frames in order, the display time of a frame in milliseconds, the loop count.
\<close>

record animation =
  frames :: "image list"
  duration :: nat
  loop :: nat

datatype stored = Raster size | Animated animation

type_synonym fs = "path \<rightharpoonup> stored"

text \<open>
  \<^verbatim>\<open>Image.open\<close>: an error when there is no such file; an animated file opens at its
  first frame, whose size is the image's size and which \<^verbatim>\<open>resize\<close> works on. The
  other frames of such a file reach the GIF writer, see \<open>sequence\<close> below.
\<close>

definition Image_open :: "path \<Rightarrow> fs \<Rightarrow> error + image" where
  "Image_open p fs =
     (case fs p of
        None \<Rightarrow> Inl OSError
      | Some (Raster s) \<Rightarrow> Inr (Opened p s)
      | Some (Animated a) \<Rightarrow>
          (case frames a of [] \<Rightarrow> Inl OSError | f # _ \<Rightarrow> Inr (Opened p (image_size f))))"

subsection \<open>The outside world\<close>

text \<open>
  What the script obtains from the network and from its libraries, as functions of what
  it hands them. \<open>'r\<close> is the radar object of the decoding library.
  \<^item> \<open>today\<close>: \<^verbatim>\<open>datetime.utcnow().strftime("%Y_%m_%d")\<close>;
  \<^item> \<open>listing\<close>: lines 39 to 43 up to the filter, the text of the \<^verbatim>\<open>key\<close> elements
    of the answer to the listing request at the given address;
  \<^item> \<open>get_content\<close>: lines 63 to 64, the body of the answer at the given address;
  \<^item> \<open>read_nexrad_level3\<close>: line 67;
  \<^item> \<open>plot_ppi_map\<close>: lines 70 to 93, \<open>Some\<close> the exception if one is raised;
  \<^item> \<open>utc_dt\<close>: lines 96 to 98, the scan time parsed from the units of the time axis;
  \<^item> \<open>savefig\<close>: lines 100 to 112, the pixel size of the PNG written for this scan and
    this display time.
\<close>

record 'r world =
  today :: string
  listing :: "string \<Rightarrow> error + string list"
  get_content :: "string \<Rightarrow> error + string"
  read_nexrad_level3 :: "string \<Rightarrow> error + 'r"
  plot_ppi_map :: "'r \<Rightarrow> error option"
  utc_dt :: "'r \<Rightarrow> error + datetime"
  savefig :: "'r \<Rightarrow> datetime \<Rightarrow> error + size"

subsection \<open>Rendering the frames (lines 58 to 114)\<close>

text \<open>\<^verbatim>\<open>key.split('/')[-1]\<close>: what follows the last slash, the whole key without a slash.\<close>

definition split_last :: "string \<Rightarrow> string" where
  "split_last key = rev (takeWhile (\<lambda>c. c \<noteq> CHR ''/'') (rev key))"

text \<open>\<^verbatim>\<open>os.path.join(a, b)\<close> of \<^verbatim>\<open>posixpath\<close>, for two components.\<close>

definition path_join :: "string \<Rightarrow> string \<Rightarrow> string" where
  "path_join a b =
     (if startswith b ''/'' then b
      else if a = [] \<or> last a = CHR ''/'' then a @ b
      else a @ ''/'' @ b)"

definition out_png :: "string \<Rightarrow> path" where
  "out_png key = path_join FOLDER (split_last key @ ''_mercator.png'')"

text \<open>
  The body of the loop over the keys: the first exception ends it, and the PNG is
  written by the last step only. A \<^verbatim>\<open>savefig\<close> that raises is taken to write nothing.
\<close>

definition process_key :: "'r world \<Rightarrow> string \<Rightarrow> fs \<Rightarrow> (error + path) \<times> fs" where
  "process_key w key fs =
     (case get_content w (BASE_URL @ key) of
        Inl e \<Rightarrow> (Inl e, fs)
      | Inr content \<Rightarrow>
     (case read_nexrad_level3 w content of
        Inl e \<Rightarrow> (Inl e, fs)
      | Inr radar \<Rightarrow>
     (case plot_ppi_map w radar of
        Some e \<Rightarrow> (Inl e, fs)
      | None \<Rightarrow>
     (case utc_dt w radar of
        Inl e \<Rightarrow> (Inl e, fs)
      | Inr u \<Rightarrow>
     (case cdt_dt u of
        Inl e \<Rightarrow> (Inl e, fs)
      | Inr c \<Rightarrow>
     (case savefig w radar c of
        Inl e \<Rightarrow> (Inl e, fs)
      | Inr sz \<Rightarrow> (Inr (out_png key), fs(out_png key \<mapsto> Raster sz))))))))"

text \<open>
  \<^verbatim>\<open>for key in keys: ...; png_files.append(out_png)\<close>, with the list built so far and
  the file system threaded through.
\<close>

fun process_keys :: "'r world \<Rightarrow> string list \<Rightarrow> path list \<Rightarrow> fs \<Rightarrow> (error + path list) \<times> fs" where
  "process_keys w [] png_files fs = (Inr png_files, fs)"
| "process_keys w (key # rest) png_files fs =
     (case process_key w key fs of
        (Inl e, fs') \<Rightarrow> (Inl e, fs')
      | (Inr p, fs') \<Rightarrow> process_keys w rest (png_files @ [p]) fs')"

text \<open>
  Lines 25 to 121: the list \<^verbatim>\<open>png_files\<close> as the assembly loop of line 125 receives
  it, after \<^verbatim>\<open>png_files = png_files[::-1]\<close>. \<^verbatim>\<open>os.makedirs(FOLDER, exist_ok=True)\<close>
  raises when a file, not a directory, has the folder's name.
\<close>

definition index_url :: "string \<Rightarrow> string" where
  "index_url date = BASE_URL @ ''?prefix='' @ STATION @ ''_'' @ date"

definition png_files :: "'r world \<Rightarrow> string list \<Rightarrow> fs \<Rightarrow> (error + path list) \<times> fs" where
  "png_files w argv fs =
     (let date = utc_date argv (today w)
      in if fs FOLDER \<noteq> None then (Inl OSError, fs)
         else (case listing w (index_url date) of
                 Inl e \<Rightarrow> (Inl e, fs)
               | Inr found \<Rightarrow>
                   (case process_keys w (keys date found) [] fs of
                      (Inl e, fs') \<Rightarrow> (Inl e, fs')
                    | (Inr ps, fs') \<Rightarrow> (Inr (rev ps), fs'))))"

subsection \<open>Assembling the animation (lines 123 to 139)\<close>

text \<open>
  The loop of lines 123 to 131, with \<^verbatim>\<open>images\<close> and \<^verbatim>\<open>base_size\<close> as arguments:
  the first image sets \<^verbatim>\<open>base_size\<close>, every later one goes through \<^verbatim>\<open>resize\<close>.
\<close>

fun images :: "path list \<Rightarrow> fs \<Rightarrow> image list \<Rightarrow> size option \<Rightarrow> error + image list" where
  "images [] fs acc base_size = Inr acc"
| "images (filename # rest) fs acc base_size =
     (case Image_open filename fs of
        Inl e \<Rightarrow> Inl e
      | Inr img \<Rightarrow>
          (case base_size of
             None \<Rightarrow> images rest fs (acc @ [img]) (Some (image_size img))
           | Some b \<Rightarrow> images rest fs (acc @ [Resized img b BILINEAR]) (Some b)))"

text \<open>
  Lines 133 to 139: \<^verbatim>\<open>images[0]\<close> raises on the empty list, before anything is
  written; otherwise the file at \<^verbatim>\<open>GIF_FILENAME\<close> is replaced. The new file is
  kept as the call that wrote it; \<open>gif_frames\<close> below gives the frames it shows. A
  failure inside the writer itself is not modelled.
\<close>

definition assemble :: "path list \<Rightarrow> fs \<Rightarrow> error option \<times> fs" where
  "assemble paths fs =
     (case images paths fs [] None of
        Inl e \<Rightarrow> (Some e, fs)
      | Inr imgs \<Rightarrow>
          (case imgs of
             [] \<Rightarrow> (Some IndexError, fs)
           | first # _ \<Rightarrow>
               (None, fs(GIF_FILENAME \<mapsto>
                  Animated \<lparr>frames = first # drop 1 imgs, duration = 800, loop = 0\<rparr>))))"

text \<open>The whole script: \<open>None\<close> when it ends normally, \<open>Some\<close> the exception otherwise.\<close>

definition run :: "'r world \<Rightarrow> string list \<Rightarrow> fs \<Rightarrow> error option \<times> fs" where
  "run w argv fs =
     (case png_files w argv fs of
        (Inl e, fs') \<Rightarrow> (Some e, fs')
      | (Inr paths, fs') \<Rightarrow> assemble paths fs')"

subsection \<open>The GIF writer\<close>

text \<open>
  \<open>assemble\<close> stores the call of \<^verbatim>\<open>save\<close>: the images it is given, the display time
  and the loop count. The frames that the written file shows are what the imaging
  library's GIF writer makes of that call, and depend on two things the symbolic images do
  not hold:
  \<^item> \<open>same\<close>: the writer's test that a frame has the pixels of the frame written last;
  \<^item> \<open>stored_frames\<close>: the frames held by an animated file.
\<close>

record encoder =
  same :: "image \<Rightarrow> image \<Rightarrow> bool"
  stored_frames :: "animation \<Rightarrow> image list"

text \<open>
  \<^verbatim>\<open>ImageSequence.Iterator(img)\<close>: the writer walks every frame of each image it is
  given. The result of \<^verbatim>\<open>resize\<close> is a single frame, and so is an image opened from
  a file with a single picture; an image opened from an animated file, which
  \<open>Image_open\<close> places at its first frame, is all the frames of that file. Only
  \<^verbatim>\<open>images[0]\<close> can be such an image, since every later one is resized.
\<close>

definition sequence :: "encoder \<Rightarrow> fs \<Rightarrow> image \<Rightarrow> image list" where
  "sequence enc fs img =
     (case img of
        Opened p s \<Rightarrow>
          (case fs p of Some (Animated a0) \<Rightarrow> stored_frames enc a0 | _ \<Rightarrow> [img])
      | Resized i s f \<Rightarrow> [img])"

text \<open>
  The frame loop of the writer, with the frames kept so far and their display times: a
  frame with the pixels of the frame kept last is not written, and its display time is
  added to that frame's; any other frame is kept with the display time of the call.
\<close>

fun write_frames ::
  "(image \<Rightarrow> image \<Rightarrow> bool) \<Rightarrow> nat \<Rightarrow> image list \<Rightarrow> (image \<times> nat) list \<Rightarrow> (image \<times> nat) list" where
  "write_frames sm d [] im_frames = im_frames"
| "write_frames sm d (im_frame # rest) im_frames =
     (if im_frames \<noteq> [] \<and> sm (fst (last im_frames)) im_frame
      then write_frames sm d rest
             (butlast im_frames @ [(fst (last im_frames), snd (last im_frames) + d)])
      else write_frames sm d rest (im_frames @ [(im_frame, d)]))"

definition gif_frames :: "encoder \<Rightarrow> fs \<Rightarrow> animation \<Rightarrow> (image \<times> nat) list" where
  "gif_frames enc fs a =
     write_frames (same enc) (duration a) (concat (map (sequence enc fs) (frames a))) []"

subsection \<open>Sample frames\<close>

text \<open>
  Five frame files of sizes 800x800, 800x800, 795x800, 800x800 and 800x802, on which the
  theorems below are run.
\<close>

definition five_paths :: "path list" where
  "five_paths = [''f1.png'', ''f2.png'', ''f3.png'', ''f4.png'', ''f5.png'']"

definition five_frames :: fs where
  "five_frames = [''f1.png'' \<mapsto> Raster (800, 800), ''f2.png'' \<mapsto> Raster (800, 800),
                  ''f3.png'' \<mapsto> Raster (795, 800), ''f4.png'' \<mapsto> Raster (800, 800),
                  ''f5.png'' \<mapsto> Raster (800, 802)]"

text \<open>
  Two writers: for \<open>all_different\<close> two frames have the same pixels only when they are
  the same image, as frames of different scans are; for \<open>one_picture\<close> every frame has
  the same pixels, as when every file is filled with one colour. \<open>five_animation\<close> is
  the call of \<^verbatim>\<open>save\<close> on the five sample frames.
\<close>

definition all_different :: encoder where
  "all_different = \<lparr>same = (\<lambda>f g. f = g), stored_frames = (\<lambda>a. frames a)\<rparr>"

definition one_picture :: encoder where
  "one_picture = \<lparr>same = (\<lambda>f g. True), stored_frames = (\<lambda>a. frames a)\<rparr>"

definition five_animation :: animation where
  "five_animation =
     \<lparr>frames = [Opened ''f1.png'' (800, 800),
                Resized (Opened ''f2.png'' (800, 800)) (800, 800) BILINEAR,
                Resized (Opened ''f3.png'' (795, 800)) (800, 800) BILINEAR,
                Resized (Opened ''f4.png'' (800, 800)) (800, 800) BILINEAR,
                Resized (Opened ''f5.png'' (800, 802)) (800, 800) BILINEAR],
      duration = 800, loop = 0\<rparr>"

subsection \<open>Sample worlds\<close>

text \<open>
  A world in which every request and every library call succeeds, for a given listing:
  the body of an answer is its address, the radar object is the body, every scan is of
  2024-05-01 00:10 UTC and every PNG is 800x800. \<open>failing_world\<close> is that world
  with the fetch of the scan of 00:10 failing.
\<close>

definition sample_time :: datetime where
  "sample_time = \<lparr>ordinal = 739007, hour = 0, minute = 10, second = 0, microsecond = 0\<rparr>"

definition sample_world :: "string list \<Rightarrow> string world" where
  "sample_world found =
     \<lparr>today = ''2024_05_01'', listing = (\<lambda>url. Inr found), get_content = (\<lambda>url. Inr url),
      read_nexrad_level3 = (\<lambda>content. Inr content), plot_ppi_map = (\<lambda>radar. None),
      utc_dt = (\<lambda>radar. Inr sample_time), savefig = (\<lambda>radar t. Inr (800, 800))\<rparr>"

definition two_scans :: "string list" where
  "two_scans = [''MOB_N0B_2024_05_01_00_05_00'', ''MOB_N0B_2024_05_01_00_10_00'']"



definition seven_scans :: "string list" where
  "seven_scans = [''MOB_N0B_2024_05_01_00_20_00'', ''MOB_N0B_2024_05_01_00_05_00'',
                  ''MOB_N0B_2024_05_01_00_35_00'', ''MOB_N0B_2024_05_01_00_10_00'',
                  ''MOB_N0B_2024_05_01_00_30_00'', ''MOB_N0B_2024_05_01_00_15_00'',
                  ''MOB_N0B_2024_05_01_00_25_00'']"

section \<open>Properties\<close>

subsection \<open>The listing resolver\<close>

lemma keys_eq:
  "keys date found =
     drop (length (filter (\<lambda>k. startswith k (STATION @ ''_'' @ date)) found) - 5)
       (sort (filter (\<lambda>k. startswith k (STATION @ ''_'' @ date)) found))"
  by (simp add: keys_def Let_def)

lemma length_keys:
  "length (keys date found) =
     min 5 (length (filter (\<lambda>k. startswith k (STATION @ ''_'' @ date)) found))"
  by (simp add: keys_eq)

lemma sorted_keys: "sorted (keys date found)"
  by (simp add: keys_eq sorted_wrt_drop)

lemma keys_subset: "set (keys date found) \<subseteq> set found"
proof -
  have "set (keys date found) \<subseteq> set (sort (filter (\<lambda>k. startswith k (STATION @ ''_'' @ date)) found))"
    unfolding keys_eq by (rule set_drop_subset)
  then show ?thesis by auto
qed

text \<open>
  Claim C5. The resolver keeps the keys that start with station, underscore and date,
  sorts them ascending and returns the last five of the sorted list, itself ascending;
  the result has five entries or, when fewer keys match, as many as match, and it is then
  the whole sorted list. The count is the constant 5 of line 44, and the function has no
  error result.
\<close>

theorem keys_latest:
  "(let matching = filter (\<lambda>k. prefix (STATION @ ''_'' @ date) k) found
    in keys date found = drop (length matching - 5) (sort matching) \<and>
       sorted (keys date found) \<and>
       length (keys date found) = min 5 (length matching) \<and>
       (length matching \<le> 5 \<longrightarrow> keys date found = sort matching))"
proof -
  have "sorted (keys date found)"
    by (rule sorted_keys)
  moreover have "length (keys date found) =
      min 5 (length (filter (\<lambda>k. prefix (STATION @ ''_'' @ date) k) found))"
    using length_keys [of date found] by (simp add: startswith_def)
  moreover have "keys date found =
      drop (length (filter (\<lambda>k. prefix (STATION @ ''_'' @ date) k) found) - 5)
        (sort (filter (\<lambda>k. prefix (STATION @ ''_'' @ date) k) found))"
    using keys_eq [of date found] by (simp add: startswith_def)
  ultimately show ?thesis
    by (simp add: Let_def)
qed

theorem keys_latest_witness:
  "(let found = [''MOB_N0B_2024_05_01_00_10_00'', ''MOB_N0B_2024_05_01_00_05_00'',
                 ''MOB_N0B_2024_05_02_00_05_00''];
        matching = filter (\<lambda>k. prefix (STATION @ ''_'' @ ''2024_05_01'') k) found
    in length matching \<le> 5 \<and> keys ''2024_05_01'' found = sort matching \<and>
       keys ''2024_05_01'' found =
         [''MOB_N0B_2024_05_01_00_05_00'', ''MOB_N0B_2024_05_01_00_10_00''])"
  using keys_latest [of "''2024_05_01''"
      "[''MOB_N0B_2024_05_01_00_10_00'', ''MOB_N0B_2024_05_01_00_05_00'',
        ''MOB_N0B_2024_05_02_00_05_00'']"]
  by (simp add: STATION_def Let_def)

subsection \<open>The display time\<close>

lemma five_hours: "timedelta_neg (timedelta_of 0 5 0 0 0) = \<lparr>days = - 1, seconds = 68400, microseconds = 0\<rparr>"
  by (simp add: timedelta_neg_def timedelta_of_def)

lemma timedelta_of_small:
  assumes "0 \<le> h * 3600 + m * 60 + s" "h * 3600 + m * 60 + s < 86400" "0 \<le> us" "us < 1000000"
  shows "timedelta_of d h m s us = \<lparr>days = d, seconds = h * 3600 + m * 60 + s, microseconds = us\<rparr>"
  using assms unfolding timedelta_of_def Let_def by simp

lemma split_seconds:
  fixes x :: int
  assumes "0 \<le> x" "x < 86400"
  shows "0 \<le> x div 3600" "x div 3600 < 24" "0 \<le> x mod 3600 div 60" "x mod 3600 div 60 < 60"
         "0 \<le> x mod 3600 mod 60" "x mod 3600 mod 60 < 60"
         "x div 3600 * 3600 + x mod 3600 div 60 * 60 + x mod 3600 mod 60 = x"
  using assms by simp_all

lemma cdt_dt_unfold:
  assumes v: "valid_datetime utc"
  shows "cdt_dt utc =
     (let x = (hour utc * 3600 + minute utc * 60 + second utc + 68400) mod 86400;
          D = ordinal utc - 1 + (hour utc * 3600 + minute utc * 60 + second utc + 68400) div 86400
      in if 0 < D \<and> D \<le> MAXORDINAL
         then Inr \<lparr>ordinal = D, hour = x div 3600, minute = x mod 3600 div 60,
                   second = x mod 3600 mod 60, microsecond = microsecond utc\<rparr>
         else Inl OverflowError)"
proof -
  have b: "0 \<le> hour utc * 3600 + minute utc * 60 + second utc"
       "hour utc * 3600 + minute utc * 60 + second utc < 86400"
       "0 \<le> microsecond utc" "microsecond utc < 1000000"
    using v unfolding valid_datetime_def by linarith+
  have t: "timedelta_of (ordinal utc) (hour utc) (minute utc) (second utc) (microsecond utc) =
        \<lparr>days = ordinal utc, seconds = hour utc * 3600 + minute utc * 60 + second utc,
         microseconds = microsecond utc\<rparr>"
    by (rule timedelta_of_small [OF b])
  have a: "timedelta_add \<lparr>days = ordinal utc, seconds = hour utc * 3600 + minute utc * 60 + second utc,
         microseconds = microsecond utc\<rparr> \<lparr>days = - 1, seconds = 68400, microseconds = 0\<rparr> =
       \<lparr>days = ordinal utc - 1 + (hour utc * 3600 + minute utc * 60 + second utc + 68400) div 86400,
        seconds = (hour utc * 3600 + minute utc * 60 + second utc + 68400) mod 86400,
        microseconds = microsecond utc\<rparr>"
    using b by (simp add: timedelta_add_def timedelta_of_def Let_def)
  show ?thesis
    unfolding cdt_dt_def datetime_sub_def datetime_add_def five_hours t a
    by (simp add: Let_def)
qed

text \<open>
  Claim C7. The display time is the scan time moved back by five hours on the time line,
  whatever the date: for every valid scan time at least five hours after the first
  supported instant, line 99 returns a valid datetime whose position on the time line is
  that of the scan time minus 5 * 3600 * 1000000 microseconds. The offset is a constant of
  the script; no time zone rule and no daylight saving rule enters.
\<close>

theorem cdt_dt_fixed_offset:
  assumes v: "valid_datetime utc" and r: "1 < ordinal utc \<or> 5 \<le> hour utc"
  shows "\<exists>cdt. cdt_dt utc = Inr cdt \<and> valid_datetime cdt \<and>
           timestamp_us cdt = timestamp_us utc - 5 * 3600 * 1000000"
proof -
  define S where "S = hour utc * 3600 + minute utc * 60 + second utc"
  define x where "x = (S + 68400) mod 86400"
  define q where "q = (S + 68400) div 86400"
  define D where "D = ordinal utc - 1 + q"
  define cdt where "cdt = \<lparr>ordinal = D, hour = x div 3600, minute = x mod 3600 div 60,
                   second = x mod 3600 mod 60, microsecond = microsecond utc\<rparr>"
  have S: "0 \<le> S" "S < 86400"
    using v unfolding valid_datetime_def S_def by linarith+
  have x: "0 \<le> x" "x < 86400"
    unfolding x_def by simp_all
  have q: "0 \<le> q" "q \<le> 1"
    using S unfolding q_def by simp_all
  have q5: "5 \<le> hour utc \<Longrightarrow> 1 \<le> q"
  proof -
    assume "5 \<le> hour utc"
    then have "86400 \<le> S + 68400"
      using v unfolding valid_datetime_def S_def by linarith
    then show "1 \<le> q" unfolding q_def by simp
  qed
  have D: "0 < D" "D \<le> MAXORDINAL"
    using r q q5 v unfolding D_def valid_datetime_def by linarith+
  have qx: "q * 86400 + x = S + 68400"
    unfolding q_def x_def by simp
  have e: "cdt_dt utc = Inr cdt"
    using D unfolding cdt_dt_unfold [OF v] cdt_def D_def q_def x_def S_def
    by (simp add: Let_def)
  have valid: "valid_datetime cdt"
    using D split_seconds [OF x] v unfolding valid_datetime_def cdt_def by simp
  have "timestamp_us cdt = (D * 86400 + (x div 3600 * 3600 + x mod 3600 div 60 * 60 + x mod 3600 mod 60)) * 1000000
          + microsecond utc"
    unfolding timestamp_us_def cdt_def by (simp add: algebra_simps)
  also have "\<dots> = (D * 86400 + x) * 1000000 + microsecond utc"
    using split_seconds(7) [OF x] by simp
  also have "\<dots> = ((ordinal utc - 1) * 86400 + (S + 68400)) * 1000000 + microsecond utc"
    using qx unfolding D_def by (simp add: algebra_simps)
  also have "\<dots> = timestamp_us utc - 5 * 3600 * 1000000"
    unfolding timestamp_us_def S_def by (simp add: algebra_simps)
  finally have "timestamp_us cdt = timestamp_us utc - 5 * 3600 * 1000000" .
  with e valid show ?thesis by blast
qed

theorem cdt_dt_fixed_offset_witness:
  "valid_datetime \<lparr>ordinal = 738977, hour = 3, minute = 4, second = 5, microsecond = 6\<rparr> \<and>
   (\<exists>cdt. cdt_dt \<lparr>ordinal = 738977, hour = 3, minute = 4, second = 5, microsecond = 6\<rparr> = Inr cdt \<and>
      valid_datetime cdt \<and>
      timestamp_us cdt =
        timestamp_us \<lparr>ordinal = 738977, hour = 3, minute = 4, second = 5, microsecond = 6\<rparr>
          - 5 * 3600 * 1000000)"
proof -
  have v: "valid_datetime \<lparr>ordinal = 738977, hour = 3, minute = 4, second = 5, microsecond = 6\<rparr>"
    by (simp add: valid_datetime_def MAXORDINAL_def)
  have r: "1 < ordinal \<lparr>ordinal = 738977, hour = 3, minute = 4, second = 5, microsecond = 6\<rparr> \<or>
           5 \<le> hour \<lparr>ordinal = 738977, hour = 3, minute = 4, second = 5, microsecond = 6\<rparr>"
    by simp
  show ?thesis
    using v cdt_dt_fixed_offset [OF v r] by (rule conjI)
qed

subsection \<open>The assembly\<close>

lemma images_Some:
  "map (\<lambda>p. Image_open p fs) paths = map Inr imgs \<Longrightarrow>
   images paths fs acc (Some b) = Inr (acc @ map (\<lambda>i. Resized i b BILINEAR) imgs)"
proof (induction paths arbitrary: acc imgs)
  case Nil
  then show ?case by simp
next
  case (Cons p ps)
  then obtain i rest where "imgs = i # rest" by (cases imgs) auto
  with Cons show ?case by simp
qed

lemma images_None:
  "map (\<lambda>p. Image_open p fs) paths = map Inr (first # rest) \<Longrightarrow>
   images paths fs [] None = Inr (first # map (\<lambda>i. Resized i (image_size first) BILINEAR) rest)"
  by (cases paths) (auto simp: images_Some)

lemma images_fail:
  "p \<in> set paths \<Longrightarrow> Image_open p fs = Inl e \<Longrightarrow> \<exists>e'. images paths fs acc base_size = Inl e'"
proof (induction paths arbitrary: acc base_size)
  case Nil
  then show ?case by simp
next
  case (Cons q qs)
  show ?case
  proof (cases "Image_open q fs")
    case (Inl a)
    then show ?thesis by simp
  next
    case (Inr img)
    with Cons.prems have "p \<in> set qs" by auto
    from Cons.IH [OF this Cons.prems(2)] Inr show ?thesis
      by (cases base_size) auto
  qed
qed

lemma images_cong:
  "\<forall>p\<in>set paths. fs1 p = fs2 p \<Longrightarrow> images paths fs1 acc base_size = images paths fs2 acc base_size"
proof (induction paths arbitrary: acc base_size)
  case Nil
  then show ?case by simp
next
  case (Cons q qs)
  then have "Image_open q fs1 = Image_open q fs2" by (simp add: Image_open_def)
  with Cons show ?case by (auto split: sum.splits option.splits)
qed

lemma assemble_success:
  assumes "map (\<lambda>p. Image_open p fs) paths = map Inr (first # rest)"
  shows "assemble paths fs =
     (None, fs(GIF_FILENAME \<mapsto> Animated \<lparr>frames = first # map (\<lambda>i. Resized i (image_size first) BILINEAR) rest,
                                           duration = 800, loop = 0\<rparr>))"
  unfolding assemble_def images_None [OF assms] by simp


lemma opened_list:
  assumes "\<forall>p\<in>set paths. \<exists>i. Image_open p fs = Inr i"
  shows "map (\<lambda>p. Image_open p fs) paths = map Inr (map (\<lambda>p. projr (Image_open p fs)) paths)"
  using assms by (induction paths) auto

lemma Image_open_source: "Image_open p fs = Inr i \<Longrightarrow> image_source i = p"
  by (auto simp: Image_open_def split: option.splits stored.splits list.splits)


lemma five_frames_open:
  "\<forall>p\<in>set five_paths. \<exists>i. Image_open p five_frames = Inr i"
  by (simp add: five_paths_def five_frames_def Image_open_def)

lemma five_frames_opened:
  "map (\<lambda>p. Image_open p five_frames) five_paths =
     [Inr (Opened ''f1.png'' (800, 800)), Inr (Opened ''f2.png'' (800, 800)),
      Inr (Opened ''f3.png'' (795, 800)), Inr (Opened ''f4.png'' (800, 800)),
      Inr (Opened ''f5.png'' (800, 802))]"
  by (simp add: five_paths_def five_frames_def Image_open_def)

lemma five_paths_nonempty: "five_paths \<noteq> []"
  by (simp add: five_paths_def)

lemma assemble_all_open:
  assumes ne: "paths \<noteq> []" and op: "\<forall>p\<in>set paths. \<exists>i. Image_open p fs = Inr i"
  shows "assemble paths fs =
     (None, fs(GIF_FILENAME \<mapsto> Animated
        \<lparr>frames = projr (Image_open (hd paths) fs) #
                  map (\<lambda>p. Resized (projr (Image_open p fs))
                               (image_size (projr (Image_open (hd paths) fs))) BILINEAR) (tl paths),
         duration = 800, loop = 0\<rparr>))"
proof -
  from ne obtain p ps where paths: "paths = p # ps" by (cases paths) auto
  have "map (\<lambda>p. Image_open p fs) paths =
        map Inr (projr (Image_open p fs) # map (\<lambda>p. projr (Image_open p fs)) ps)"
    using opened_list [OF op] by (simp add: paths)
  from assemble_success [OF this] show ?thesis
    by (simp add: paths comp_def)
qed

text \<open>
  Claim C2. For every non-empty list of paths that all open, whatever the sizes of the
  files, the assembly succeeds and every frame of the animation has the pixel size of the
  first file; a frame whose file has another size is that file's image resized to the
  first size with the bilinear filter. No other operation is applied to a frame.
\<close>

theorem assemble_canonical_size:
  assumes ne: "paths \<noteq> []" and op: "\<forall>p\<in>set paths. \<exists>i. Image_open p fs = Inr i"
  shows "\<exists>a first. assemble paths fs = (None, fs(GIF_FILENAME \<mapsto> Animated a)) \<and>
           Image_open (hd paths) fs = Inr first \<and>
           (\<forall>f\<in>set (frames a). image_size f = image_size first) \<and>
           (\<forall>k<length paths. \<forall>i. Image_open (paths ! k) fs = Inr i \<and> image_size i \<noteq> image_size first
               \<longrightarrow> frames a ! k = Resized i (image_size first) BILINEAR)"
proof -
  from ne obtain p ps where paths: "paths = p # ps" by (cases paths) auto
  from op obtain first where first: "Image_open p fs = Inr first" by (auto simp: paths)
  let ?a = "\<lparr>frames = first # map (\<lambda>q. Resized (projr (Image_open q fs)) (image_size first) BILINEAR) ps,
             duration = 800, loop = 0\<rparr>"
  have 1: "assemble paths fs = (None, fs(GIF_FILENAME \<mapsto> Animated ?a))"
    unfolding assemble_all_open [OF ne op] by (simp add: paths first)
  have 2: "\<forall>f\<in>set (frames ?a). image_size f = image_size first"
    by auto
  have 3: "\<forall>k<length paths. \<forall>i. Image_open (paths ! k) fs = Inr i \<and> image_size i \<noteq> image_size first
               \<longrightarrow> frames ?a ! k = Resized i (image_size first) BILINEAR"
  proof (intro allI impI)
    fix k i
    assume k: "k < length paths"
      and i: "Image_open (paths ! k) fs = Inr i \<and> image_size i \<noteq> image_size first"
    show "frames ?a ! k = Resized i (image_size first) BILINEAR"
    proof (cases k)
      case 0
      with i first show ?thesis by (auto simp: paths)
    next
      case (Suc j)
      with k i show ?thesis by (simp add: paths)
    qed
  qed
  from 1 2 3 first show ?thesis
    unfolding paths list.sel by blast
qed


lemma five_frames_result:
  "assemble five_paths five_frames =
     (None, five_frames(GIF_FILENAME \<mapsto> Animated
        \<lparr>frames = [Opened ''f1.png'' (800, 800),
                   Resized (Opened ''f2.png'' (800, 800)) (800, 800) BILINEAR,
                   Resized (Opened ''f3.png'' (795, 800)) (800, 800) BILINEAR,
                   Resized (Opened ''f4.png'' (800, 800)) (800, 800) BILINEAR,
                   Resized (Opened ''f5.png'' (800, 802)) (800, 800) BILINEAR],
         duration = 800, loop = 0\<rparr>))"
  by (simp add: assemble_def five_paths_def five_frames_def Image_open_def)

theorem assemble_canonical_size_witness:
  "five_paths \<noteq> [] \<and> map (\<lambda>p. Image_open p five_frames) five_paths =
     [Inr (Opened ''f1.png'' (800, 800)), Inr (Opened ''f2.png'' (800, 800)),
      Inr (Opened ''f3.png'' (795, 800)), Inr (Opened ''f4.png'' (800, 800)),
      Inr (Opened ''f5.png'' (800, 802))] \<and>
   (\<exists>a first. assemble five_paths five_frames = (None, five_frames(GIF_FILENAME \<mapsto> Animated a)) \<and>
           Image_open (hd five_paths) five_frames = Inr first \<and>
           (\<forall>f\<in>set (frames a). image_size f = image_size first) \<and>
           (\<forall>k<length five_paths. \<forall>i. Image_open (five_paths ! k) five_frames = Inr i \<and>
               image_size i \<noteq> image_size first
               \<longrightarrow> frames a ! k = Resized i (image_size first) BILINEAR)) \<and>
   Image_open (five_paths ! 2) five_frames = Inr (Opened ''f3.png'' (795, 800)) \<and>
   Image_open (hd five_paths) five_frames = Inr (Opened ''f1.png'' (800, 800)) \<and>
   image_size (Opened ''f3.png'' (795, 800)) \<noteq> image_size (Opened ''f1.png'' (800, 800))"
proof -
  have 1: "Image_open (five_paths ! 2) five_frames = Inr (Opened ''f3.png'' (795, 800))"
    by (simp add: five_paths_def five_frames_def Image_open_def)
  have 2: "Image_open (hd five_paths) five_frames = Inr (Opened ''f1.png'' (800, 800))"
    by (simp add: five_paths_def five_frames_def Image_open_def)
  have 3: "image_size (Opened ''f3.png'' (795, 800)) \<noteq> image_size (Opened ''f1.png'' (800, 800))"
    by simp
  show ?thesis
    using five_paths_nonempty five_frames_opened
      assemble_canonical_size [OF five_paths_nonempty five_frames_open] 1 2 3
    by (intro conjI)
qed

lemma Image_open_Opened: "Image_open p fs = Inr i \<Longrightarrow> i = Opened p (image_size i)"
  by (auto simp: Image_open_def split: option.splits stored.splits list.splits)

text \<open>
  Claim C10. The first frame is the first file as opened, never resized, and its size is
  the size of every resize; every later frame is its file's image passed through the
  bilinear resize to that size, with no test of whether the sizes differ.
\<close>

theorem assemble_resize_unconditional:
  assumes ne: "paths \<noteq> []" and op: "\<forall>p\<in>set paths. \<exists>i. Image_open p fs = Inr i"
  shows "\<exists>a s. assemble paths fs = (None, fs(GIF_FILENAME \<mapsto> Animated a)) \<and>
           Image_open (hd paths) fs = Inr (Opened (hd paths) s) \<and>
           frames a ! 0 = Opened (hd paths) s \<and>
           (\<forall>k. 0 < k \<and> k < length paths \<longrightarrow>
              (\<exists>i. Image_open (paths ! k) fs = Inr i \<and> frames a ! k = Resized i s BILINEAR))"
proof -
  from ne obtain p ps where paths: "paths = p # ps" by (cases paths) auto
  from op obtain first where first: "Image_open p fs = Inr first" by (auto simp: paths)
  define s where "s = image_size first"
  have s: "first = Opened p s"
    using Image_open_Opened [OF first] by (simp add: s_def)
  let ?a = "\<lparr>frames = first # map (\<lambda>q. Resized (projr (Image_open q fs)) (image_size first) BILINEAR) ps,
             duration = 800, loop = 0\<rparr>"
  have 1: "assemble paths fs = (None, fs(GIF_FILENAME \<mapsto> Animated ?a))"
    unfolding assemble_all_open [OF ne op] by (simp add: paths first)
  have 2: "frames ?a ! 0 = Opened (hd paths) s"
    by (simp add: s paths)
  have 3: "\<forall>k. 0 < k \<and> k < length paths \<longrightarrow>
              (\<exists>i. Image_open (paths ! k) fs = Inr i \<and> frames ?a ! k = Resized i s BILINEAR)"
  proof (intro allI impI)
    fix k
    assume k: "0 < k \<and> k < length paths"
    then obtain j where j: "k = Suc j" "j < length ps"
      by (cases k) (auto simp: paths)
    then have "ps ! j \<in> set paths" by (simp add: paths)
    with op obtain i where i: "Image_open (ps ! j) fs = Inr i" by blast
    with j show "\<exists>i. Image_open (paths ! k) fs = Inr i \<and> frames ?a ! k = Resized i s BILINEAR"
      by (simp add: paths s)
  qed
  have 4: "Image_open (hd paths) fs = Inr (Opened (hd paths) s)"
    using first s by (simp add: paths)
  from 1 2 3 4 show ?thesis by blast
qed

theorem assemble_resize_unconditional_witness:
  "five_paths \<noteq> [] \<and> map (\<lambda>p. Image_open p five_frames) five_paths =
     [Inr (Opened ''f1.png'' (800, 800)), Inr (Opened ''f2.png'' (800, 800)),
      Inr (Opened ''f3.png'' (795, 800)), Inr (Opened ''f4.png'' (800, 800)),
      Inr (Opened ''f5.png'' (800, 802))] \<and>
   (\<exists>a s. assemble five_paths five_frames = (None, five_frames(GIF_FILENAME \<mapsto> Animated a)) \<and>
           Image_open (hd five_paths) five_frames = Inr (Opened (hd five_paths) s) \<and>
           frames a ! 0 = Opened (hd five_paths) s \<and>
           (\<forall>k. 0 < k \<and> k < length five_paths \<longrightarrow>
              (\<exists>i. Image_open (five_paths ! k) five_frames = Inr i \<and>
                   frames a ! k = Resized i s BILINEAR))) \<and>
   (0::nat) < 1 \<and> 1 < length five_paths \<and>
   Image_open (five_paths ! 1) five_frames = Inr (Opened ''f2.png'' (800, 800)) \<and>
   Image_open (hd five_paths) five_frames = Inr (Opened ''f1.png'' (800, 800))"
proof -
  have 1: "Image_open (five_paths ! 1) five_frames = Inr (Opened ''f2.png'' (800, 800))"
    by (simp add: five_paths_def five_frames_def Image_open_def)
  have 2: "Image_open (hd five_paths) five_frames = Inr (Opened ''f1.png'' (800, 800))"
    by (simp add: five_paths_def five_frames_def Image_open_def)
  have 3: "(0::nat) < 1" "1 < length five_paths"
    by (simp_all add: five_paths_def)
  show ?thesis
    using five_paths_nonempty five_frames_opened
      assemble_resize_unconditional [OF five_paths_nonempty five_frames_open] 1 2 3
    by (intro conjI)
qed

text \<open>
  Claim C4. On the empty list of paths the assembly raises at \<^verbatim>\<open>images[0]\<close>, the
  \<^verbatim>\<open>IndexError\<close> of the empty sequence, and the file system is left as it was: the
  error comes before the write, so a file already at the animation's path stays.
\<close>

theorem assemble_empty: "assemble [] fs = (Some IndexError, fs)"
  by (simp add: assemble_def)

lemma assemble_other_files:
  "assemble paths fs = (r, fs') \<Longrightarrow> p \<noteq> GIF_FILENAME \<Longrightarrow> fs' p = fs p"
  by (auto simp: assemble_def split: sum.splits list.splits)

lemma assemble_cong:
  assumes "\<forall>p\<in>set paths. fs1 p = fs2 p"
  shows "fst (assemble paths fs1) = fst (assemble paths fs2) \<and>
         (fst (assemble paths fs1) = None \<longrightarrow>
            snd (assemble paths fs1) GIF_FILENAME = snd (assemble paths fs2) GIF_FILENAME)"
  unfolding assemble_def images_cong [OF assms]
  by (auto split: sum.splits list.splits)

lemma assemble_writes:
  "assemble paths fs = (None, fs') \<Longrightarrow>
   \<exists>a. fs' GIF_FILENAME = Some (Animated a) \<and> duration a = 800 \<and> loop a = 0 \<and>
        images paths fs [] None = Inr (frames a) \<and> frames a \<noteq> []"
  by (auto simp: assemble_def split: sum.splits list.splits)

text \<open>
  Claim C8. Running the assembly twice on the same frame files (the animation's path is
  not one of them) gives the same outcome both times, and when it succeeds the two
  animations written have the same number of frames, the same display time, the same loop
  count and the same frame sizes.
\<close>

theorem assemble_twice:
  assumes a1: "assemble paths fs = (r1, fs1)" and a2: "assemble paths fs1 = (r2, fs2)"
    and out: "GIF_FILENAME \<notin> set paths"
  shows "r2 = r1 \<and>
         (r1 = None \<longrightarrow>
            (\<exists>a1 a2. fs1 GIF_FILENAME = Some (Animated a1) \<and> fs2 GIF_FILENAME = Some (Animated a2) \<and>
               length (frames a1) = length (frames a2) \<and> duration a1 = duration a2 \<and>
               loop a1 = loop a2 \<and> map image_size (frames a1) = map image_size (frames a2)))"
proof -
  have same: "\<forall>p\<in>set paths. fs p = fs1 p"
    using assemble_other_files [OF a1] out by metis
  from assemble_cong [OF same] a1 a2
  have r: "r1 = r2" and g: "r1 = None \<longrightarrow> fs1 GIF_FILENAME = fs2 GIF_FILENAME"
    by simp_all
  show ?thesis
  proof (intro conjI impI)
    show "r2 = r1" using r by simp
  next
    assume n: "r1 = None"
    with a1 assemble_writes obtain a where a: "fs1 GIF_FILENAME = Some (Animated a)"
      by blast
    with g n have "fs2 GIF_FILENAME = Some (Animated a)" by simp
    with a show "\<exists>a1 a2. fs1 GIF_FILENAME = Some (Animated a1) \<and> fs2 GIF_FILENAME = Some (Animated a2) \<and>
               length (frames a1) = length (frames a2) \<and> duration a1 = duration a2 \<and>
               loop a1 = loop a2 \<and> map image_size (frames a1) = map image_size (frames a2)"
      by blast
  qed
qed

theorem assemble_twice_witness:
  "GIF_FILENAME \<notin> set five_paths \<and>
   fst (assemble five_paths five_frames) = None \<and>
   fst (assemble five_paths (snd (assemble five_paths five_frames))) = None \<and>
   (\<exists>a1 a2. snd (assemble five_paths five_frames) GIF_FILENAME = Some (Animated a1) \<and>
       snd (assemble five_paths (snd (assemble five_paths five_frames))) GIF_FILENAME =
         Some (Animated a2) \<and>
       length (frames a1) = length (frames a2) \<and> duration a1 = duration a2 \<and>
       loop a1 = loop a2 \<and> map image_size (frames a1) = map image_size (frames a2))"
proof -
  have out: "GIF_FILENAME \<notin> set five_paths"
    by (simp add: GIF_FILENAME_def five_paths_def)
  have n: "fst (assemble five_paths five_frames) = None"
    by (simp add: five_frames_result)
  from assemble_twice [OF prod.collapse [symmetric] prod.collapse [symmetric] out,
      of five_frames] n out
  show ?thesis by simp
qed

subsection \<open>The frames of the written file\<close>

lemma write_frames_merge:
  "acc \<noteq> [] \<Longrightarrow> sm (fst (last acc)) x \<Longrightarrow>
   write_frames sm d (x # xs) acc =
     write_frames sm d xs (butlast acc @ [(fst (last acc), snd (last acc) + d)])"
  by simp

lemma write_frames_keep:
  "acc = [] \<or> \<not> sm (fst (last acc)) x \<Longrightarrow>
   write_frames sm d (x # xs) acc = write_frames sm d xs (acc @ [(x, d)])"
  by auto

lemma write_frames_distinct:
  "successively (\<lambda>f g. \<not> sm f g) xs \<Longrightarrow>
   acc = [] \<or> xs = [] \<or> \<not> sm (fst (last acc)) (hd xs) \<Longrightarrow>
   write_frames sm d xs acc = acc @ map (\<lambda>f. (f, d)) xs"
proof (induction xs arbitrary: acc)
  case Nil
  then show ?case by simp
next
  case (Cons x xs)
  from Cons.prems(2) have n: "acc = [] \<or> \<not> sm (fst (last acc)) x" by auto
  from Cons.prems(1) have s: "successively (\<lambda>f g. \<not> sm f g) xs"
    and h: "xs = [] \<or> \<not> sm x (hd xs)"
    by (cases xs; simp)+
  have "write_frames sm d xs (acc @ [(x, d)]) = (acc @ [(x, d)]) @ map (\<lambda>f. (f, d)) xs"
    using h by (intro Cons.IH [OF s]) simp
  then show ?case
    unfolding write_frames_keep [where sm = sm and acc = acc and x = x, OF n] by simp
qed

text \<open>
  Whatever is merged, the display times add up to the display time of the call for every
  frame walked, and no frame is added.
\<close>

lemma write_frames_total:
  "sum_list (map snd (write_frames sm d xs acc)) = sum_list (map snd acc) + d * length xs"
proof (induction xs arbitrary: acc)
  case Nil
  then show ?case by simp
next
  case (Cons x xs)
  show ?case
  proof (cases "acc \<noteq> [] \<and> sm (fst (last acc)) x")
    case True
    then have "butlast acc @ [last acc] = acc" by simp
    then have "sum_list (map snd (butlast acc @ [last acc])) = sum_list (map snd acc)"
      by (rule arg_cong)
    then have "sum_list (map snd (butlast acc)) + snd (last acc) = sum_list (map snd acc)"
      by simp
    then show ?thesis
      unfolding write_frames_merge [where sm = sm and acc = acc and x = x, OF conjunct1 [OF True] conjunct2 [OF True]] Cons.IH
      by simp
  next
    case False
    then have n: "acc = [] \<or> \<not> sm (fst (last acc)) x" by auto
    show ?thesis
      unfolding write_frames_keep [where sm = sm and acc = acc and x = x, OF n] Cons.IH by simp
  qed
qed

lemma write_frames_length:
  "length (write_frames sm d xs acc) \<le> length acc + length xs"
proof (induction xs arbitrary: acc)
  case Nil
  then show ?case by simp
next
  case (Cons x xs)
  show ?case
  proof (cases "acc \<noteq> [] \<and> sm (fst (last acc)) x")
    case True
    from Cons.IH [of "butlast acc @ [(fst (last acc), snd (last acc) + d)]"] True
    show ?thesis
      unfolding write_frames_merge [where sm = sm and acc = acc and x = x, OF conjunct1 [OF True] conjunct2 [OF True]] by simp
  next
    case False
    then have n: "acc = [] \<or> \<not> sm (fst (last acc)) x" by auto
    from Cons.IH [of "acc @ [(x, d)]"] show ?thesis
      unfolding write_frames_keep [where sm = sm and acc = acc and x = x, OF n] by simp
  qed
qed

lemma sequence_single:
  assumes "\<exists>s. fs (hd paths) = Some (Raster s)" "paths \<noteq> []"
    and "\<forall>p\<in>set paths. \<exists>i. Image_open p fs = Inr i"
  shows "concat (map (sequence enc fs)
           (projr (Image_open (hd paths) fs) #
            map (\<lambda>p. Resized (projr (Image_open p fs)) b BILINEAR) (tl paths))) =
         projr (Image_open (hd paths) fs) #
            map (\<lambda>p. Resized (projr (Image_open p fs)) b BILINEAR) (tl paths)"
proof -
  from assms(1) obtain s where s: "fs (hd paths) = Some (Raster s)" ..
  then have o: "projr (Image_open (hd paths) fs) = Opened (hd paths) s"
    by (simp add: Image_open_def)
  have 1: "sequence enc fs (Opened (hd paths) s) = [Opened (hd paths) s]"
    using s by (simp add: sequence_def)
  have 2: "concat (map (sequence enc fs) (map (\<lambda>p. Resized (projr (Image_open p fs)) b BILINEAR) qs)) =
        map (\<lambda>p. Resized (projr (Image_open p fs)) b BILINEAR) qs" for qs
    by (induction qs) (simp_all add: sequence_def)
  show ?thesis
    unfolding o using 1 2 by simp
qed


text \<open>
  Claim C3, amended. For every non-empty list of paths that all open, a single path
  included, the assembly gives the writer one image for each path, the i-th made from the
  i-th path, with a display time of 800 ms and the loop count 0. When the first file holds
  a single picture and no frame has the pixels of the frame before it, the written file
  shows exactly these frames, one for each path, each for 800 ms.
\<close>

theorem assemble_displayed_frames:
  assumes ne: "paths \<noteq> []" and op: "\<forall>p\<in>set paths. \<exists>i. Image_open p fs = Inr i"
  shows "\<exists>a. assemble paths fs = (None, fs(GIF_FILENAME \<mapsto> Animated a)) \<and>
           length (frames a) = length paths \<and> map image_source (frames a) = paths \<and>
           duration a = 800 \<and> loop a = 0 \<and>
           ((\<exists>s. fs (hd paths) = Some (Raster s)) \<and>
            successively (\<lambda>f g. \<not> same enc f g) (frames a) \<longrightarrow>
              gif_frames enc fs a = map (\<lambda>f. (f, 800)) (frames a))"
proof -
  from ne obtain p ps where paths: "paths = p # ps" by (cases paths) auto
  define F where "F = projr (Image_open (hd paths) fs) #
      map (\<lambda>q. Resized (projr (Image_open q fs))
                   (image_size (projr (Image_open (hd paths) fs))) BILINEAR) (tl paths)"
  define a where "a = \<lparr>frames = F, duration = 800, loop = 0\<rparr>"
  have asm: "assemble paths fs = (None, fs(GIF_FILENAME \<mapsto> Animated a))"
    unfolding assemble_all_open [OF ne op] a_def F_def ..
  have src: "image_source (projr (Image_open q fs)) = q" if "q \<in> set paths" for q
  proof -
    from op that obtain i where "Image_open q fs = Inr i" by blast
    then show ?thesis using Image_open_source by fastforce
  qed
  have "map (\<lambda>q. image_source (projr (Image_open q fs))) ps = ps"
    using src by (simp add: paths map_idI)
  then have srcs: "map image_source F = paths"
    using src [of p] by (simp add: F_def paths comp_def)
  have len: "length F = length paths"
    by (simp add: F_def paths)
  have enc: "gif_frames enc fs a = map (\<lambda>f. (f, 800)) F"
    if r: "\<exists>s. fs (hd paths) = Some (Raster s)"
      and d: "successively (\<lambda>f g. \<not> same enc f g) F"
  proof -
    have "concat (map (sequence enc fs) F) = F"
      unfolding F_def by (rule sequence_single [OF r ne op])
    then have "gif_frames enc fs a = write_frames (same enc) 800 F []"
      by (simp add: gif_frames_def a_def)
    also have "\<dots> = [] @ map (\<lambda>f. (f, 800)) F"
      by (rule write_frames_distinct [OF d]) simp
    finally show ?thesis by simp
  qed
  show ?thesis
    using asm srcs len enc by (intro exI [of _ a]) (simp add: a_def)
qed

lemma five_animation_result:
  "assemble five_paths five_frames =
     (None, five_frames(GIF_FILENAME \<mapsto> Animated five_animation))"
  by (simp add: five_frames_result five_animation_def)

theorem assemble_displayed_frames_witness:
  "five_paths \<noteq> [] \<and>
   map (\<lambda>p. Image_open p five_frames) five_paths =
     [Inr (Opened ''f1.png'' (800, 800)), Inr (Opened ''f2.png'' (800, 800)),
      Inr (Opened ''f3.png'' (795, 800)), Inr (Opened ''f4.png'' (800, 800)),
      Inr (Opened ''f5.png'' (800, 802))] \<and>
   (\<exists>a. assemble five_paths five_frames = (None, five_frames(GIF_FILENAME \<mapsto> Animated a)) \<and>
      length (frames a) = length five_paths \<and> map image_source (frames a) = five_paths \<and>
      duration a = 800 \<and> loop a = 0 \<and>
      ((\<exists>s. five_frames (hd five_paths) = Some (Raster s)) \<and>
       successively (\<lambda>f g. \<not> same all_different f g) (frames a) \<longrightarrow>
         gif_frames all_different five_frames a = map (\<lambda>f. (f, 800)) (frames a))) \<and>
   five_frames (hd five_paths) = Some (Raster (800, 800)) \<and>
   successively (\<lambda>f g. \<not> same all_different f g) (frames five_animation) \<and>
   gif_frames all_different five_frames five_animation =
     [(Opened ''f1.png'' (800, 800), 800),
      (Resized (Opened ''f2.png'' (800, 800)) (800, 800) BILINEAR, 800),
      (Resized (Opened ''f3.png'' (795, 800)) (800, 800) BILINEAR, 800),
      (Resized (Opened ''f4.png'' (800, 800)) (800, 800) BILINEAR, 800),
      (Resized (Opened ''f5.png'' (800, 802)) (800, 800) BILINEAR, 800)]"
proof -
  have 1: "five_frames (hd five_paths) = Some (Raster (800, 800))"
    by (simp add: five_paths_def five_frames_def)
  have 2: "successively (\<lambda>f g. \<not> same all_different f g) (frames five_animation)"
    by (simp add: five_animation_def all_different_def)
  have 3: "gif_frames all_different five_frames five_animation =
     [(Opened ''f1.png'' (800, 800), 800),
      (Resized (Opened ''f2.png'' (800, 800)) (800, 800) BILINEAR, 800),
      (Resized (Opened ''f3.png'' (795, 800)) (800, 800) BILINEAR, 800),
      (Resized (Opened ''f4.png'' (800, 800)) (800, 800) BILINEAR, 800),
      (Resized (Opened ''f5.png'' (800, 802)) (800, 800) BILINEAR, 800)]"
    by (simp add: gif_frames_def five_animation_def all_different_def sequence_def five_frames_def)
  show ?thesis
    using five_paths_nonempty five_frames_opened
      assemble_displayed_frames [OF five_paths_nonempty five_frames_open, of all_different] 1 2 3
    by (intro conjI)
qed

text \<open>
  As the claim states it, with no condition on the pictures, it fails: when all five
  sample frames have the same pixels the writer keeps the first and adds up the display
  times, and the file shows one frame for 4000 ms, not five frames for 800 ms each.
\<close>

theorem assemble_frame_count_counterexample:
  "five_paths \<noteq> [] \<and>
   map (\<lambda>p. Image_open p five_frames) five_paths =
     [Inr (Opened ''f1.png'' (800, 800)), Inr (Opened ''f2.png'' (800, 800)),
      Inr (Opened ''f3.png'' (795, 800)), Inr (Opened ''f4.png'' (800, 800)),
      Inr (Opened ''f5.png'' (800, 802))] \<and>
   assemble five_paths five_frames =
     (None, five_frames(GIF_FILENAME \<mapsto> Animated five_animation)) \<and>
   gif_frames one_picture five_frames five_animation = [(Opened ''f1.png'' (800, 800), 4000)] \<and>
   length (gif_frames one_picture five_frames five_animation) \<noteq> length five_paths"
proof -
  have g: "gif_frames one_picture five_frames five_animation = [(Opened ''f1.png'' (800, 800), 4000)]"
    by (simp add: gif_frames_def five_animation_def one_picture_def sequence_def five_frames_def)
  have n: "length (gif_frames one_picture five_frames five_animation) \<noteq> length five_paths"
    by (simp add: g five_paths_def)
  show ?thesis
    using five_paths_nonempty five_frames_opened five_animation_result g n
    by (intro conjI)
qed

text \<open>
  An animated first file brings all its frames: two paths, the first a file of two frames,
  give a file that shows three frames.
\<close>

lemma animated_first_file:
  "assemble [''loop.gif'', ''c.png'']
     [''loop.gif'' \<mapsto> Animated
        \<lparr>frames = [Opened ''a.png'' (10, 10),
                   Resized (Opened ''b.png'' (10, 10)) (10, 10) BILINEAR],
         duration = 800, loop = 0\<rparr>,
      ''c.png'' \<mapsto> Raster (10, 10)] =
   (None,
    [''loop.gif'' \<mapsto> Animated
        \<lparr>frames = [Opened ''a.png'' (10, 10),
                   Resized (Opened ''b.png'' (10, 10)) (10, 10) BILINEAR],
         duration = 800, loop = 0\<rparr>,
     ''c.png'' \<mapsto> Raster (10, 10),
     GIF_FILENAME \<mapsto> Animated
        \<lparr>frames = [Opened ''loop.gif'' (10, 10),
                   Resized (Opened ''c.png'' (10, 10)) (10, 10) BILINEAR],
         duration = 800, loop = 0\<rparr>]) \<and>
   gif_frames all_different
     [''loop.gif'' \<mapsto> Animated
        \<lparr>frames = [Opened ''a.png'' (10, 10),
                   Resized (Opened ''b.png'' (10, 10)) (10, 10) BILINEAR],
         duration = 800, loop = 0\<rparr>,
      ''c.png'' \<mapsto> Raster (10, 10)]
     \<lparr>frames = [Opened ''loop.gif'' (10, 10),
                Resized (Opened ''c.png'' (10, 10)) (10, 10) BILINEAR],
      duration = 800, loop = 0\<rparr> =
   [(Opened ''a.png'' (10, 10), 800),
    (Resized (Opened ''b.png'' (10, 10)) (10, 10) BILINEAR, 800),
    (Resized (Opened ''c.png'' (10, 10)) (10, 10) BILINEAR, 800)]"
  by (simp add: assemble_def Image_open_def gif_frames_def sequence_def all_different_def)

subsection \<open>The whole run\<close>

lemma split_last_no_slash: "CHR ''/'' \<notin> set (split_last key)"
  unfolding split_last_def using set_takeWhileD by fastforce

lemma out_png_eq: "out_png key = ''nexrad/'' @ split_last key @ ''_mercator.png''"
proof -
  have "\<not> prefix ''/'' (split_last key @ ''_mercator.png'')"
    using split_last_no_slash [of key] by (cases "split_last key") auto
  then show ?thesis
    by (simp add: out_png_def path_join_def startswith_def FOLDER_def)
qed


lemma process_key_cases:
  "(\<exists>e. process_key w key fs = (Inl e, fs)) \<or>
   (\<exists>sz. process_key w key fs = (Inr (out_png key), fs(out_png key \<mapsto> Raster sz)))"
  by (auto simp: process_key_def split: sum.splits option.splits)

lemma process_key_fst: "fst (process_key w key fs) = fst (process_key w key fs0)"
  by (simp add: process_key_def split: sum.splits option.splits)


lemma process_keys_char:
  "process_keys w ks acc fs = (res, fs') \<Longrightarrow>
   \<exists>done. prefix done ks \<and>
     (\<forall>k\<in>set done. fst (process_key w k fs0) = Inr (out_png k) \<and>
                     (\<exists>sz. fs' (out_png k) = Some (Raster sz))) \<and>
     (\<forall>p. p \<notin> out_png ` set done \<longrightarrow> fs' p = fs p) \<and>
     (case res of
        Inr ps \<Rightarrow> done = ks \<and> ps = acc @ map out_png ks
      | Inl e \<Rightarrow> done \<noteq> ks \<and> fst (process_key w (ks ! length done) fs0) = Inl e)"
proof (induction ks arbitrary: acc fs)
  case Nil
  then show ?case by (intro exI [of _ "[]"]) auto
next
  case (Cons k ks)
  from process_key_cases [of w k fs] show ?case
  proof
    assume "\<exists>e. process_key w k fs = (Inl e, fs)"
    then obtain e where e: "process_key w k fs = (Inl e, fs)" ..
    with Cons.prems have r: "res = Inl e" "fs' = fs" by simp_all
    from e have "fst (process_key w k fs0) = Inl e"
      using process_key_fst [of w k fs0 fs] by simp
    with r show ?thesis by (intro exI [of _ "[]"]) simp
  next
    assume "\<exists>sz. process_key w k fs = (Inr (out_png k), fs(out_png k \<mapsto> Raster sz))"
    then obtain sz where ok: "process_key w k fs = (Inr (out_png k), fs(out_png k \<mapsto> Raster sz))" ..
    with Cons.prems
    have "process_keys w ks (acc @ [out_png k]) (fs(out_png k \<mapsto> Raster sz)) = (res, fs')"
      by simp
    from Cons.IH [OF this] obtain d where
      d1: "prefix d ks" and
      d2: "\<forall>k\<in>set d. fst (process_key w k fs0) = Inr (out_png k) \<and>
                     (\<exists>sz. fs' (out_png k) = Some (Raster sz))" and
      d3: "\<forall>p. p \<notin> out_png ` set d \<longrightarrow> fs' p = (fs(out_png k \<mapsto> Raster sz)) p" and
      d4: "case res of
             Inr ps \<Rightarrow> d = ks \<and> ps = (acc @ [out_png k]) @ map out_png ks
           | Inl e \<Rightarrow> d \<noteq> ks \<and> fst (process_key w (ks ! length d) fs0) = Inl e"
      by blast
    have k1: "fst (process_key w k fs0) = Inr (out_png k)"
      using ok process_key_fst [of w k fs0 fs] by simp
    have k2: "\<exists>sz. fs' (out_png k) = Some (Raster sz)"
    proof (cases "out_png k \<in> out_png ` set d")
      case True
      with d2 show ?thesis by force
    next
      case False
      with d3 show ?thesis by simp
    qed
    have "prefix (k # d) (k # ks)" using d1 by simp
    moreover have "\<forall>j\<in>set (k # d). fst (process_key w j fs0) = Inr (out_png j) \<and>
                     (\<exists>sz. fs' (out_png j) = Some (Raster sz))"
      using d2 k1 k2 by simp
    moreover have "\<forall>p. p \<notin> out_png ` set (k # d) \<longrightarrow> fs' p = fs p"
      using d3 by simp
    moreover have "case res of
        Inr ps \<Rightarrow> k # d = k # ks \<and> ps = acc @ map out_png (k # ks)
      | Inl e \<Rightarrow> k # d \<noteq> k # ks \<and> fst (process_key w ((k # ks) ! length (k # d)) fs0) = Inl e"
      using d4 by (cases res) simp_all
    ultimately show ?thesis by blast
  qed
qed

lemma images_length:
  "images paths fs acc base_size = Inr imgs \<Longrightarrow> length imgs = length acc + length paths"
proof (induction paths arbitrary: acc base_size)
  case Nil
  then show ?case by simp
next
  case (Cons p ps)
  then show ?case
    by (cases "Image_open p fs"; cases base_size) force+
qed


lemma png_files_Inr:
  assumes "png_files w argv fs = (Inr ps, fs1)"
  shows "\<exists>found. fs FOLDER = None \<and>
           listing w (index_url (utc_date argv (today w))) = Inr found \<and>
           ps = rev (map out_png (keys (utc_date argv (today w)) found)) \<and>
           process_keys w (keys (utc_date argv (today w)) found) [] fs =
             (Inr (map out_png (keys (utc_date argv (today w)) found)), fs1)"
proof -
  from assms have f: "fs FOLDER = None"
    by (auto simp: png_files_def Let_def split: if_splits)
  from assms f obtain found where l: "listing w (index_url (utc_date argv (today w))) = Inr found"
    by (cases "listing w (index_url (utc_date argv (today w)))") (auto simp: png_files_def Let_def)
  obtain res fs2 where p: "process_keys w (keys (utc_date argv (today w)) found) [] fs = (res, fs2)"
    by (cases "process_keys w (keys (utc_date argv (today w)) found) [] fs")
  from assms f l p obtain qs where q: "res = Inr qs" "ps = rev qs" "fs2 = fs1"
    by (cases res) (auto simp: png_files_def Let_def)
  from process_keys_char [OF p, of fs] q have "qs = map out_png (keys (utc_date argv (today w)) found)"
    by auto
  with f l p q show ?thesis by blast
qed




lemma cdt_sample: "cdt_dt sample_time = Inr \<lparr>ordinal = 739006, hour = 19, minute = 10, second = 0, microsecond = 0\<rparr>"
  by (simp add: cdt_dt_def sample_time_def datetime_sub_def datetime_add_def timedelta_neg_def
      timedelta_add_def timedelta_of_def MAXORDINAL_def Let_def)





lemma assemble_length:
  assumes "assemble paths fs = (None, fs')"
  shows "\<exists>a. fs' GIF_FILENAME = Some (Animated a) \<and> length (frames a) = length paths"
proof -
  from assemble_writes [OF assms] obtain a where
    a: "fs' GIF_FILENAME = Some (Animated a)" "images paths fs [] None = Inr (frames a)"
    by blast
  from images_length [OF a(2)] a(1) show ?thesis by simp
qed

text \<open>
  Claim C9. A run handles at most five scans: the list of keys has at most five entries,
  so has the list of frame paths given to the assembly, and an animation written by a run
  has at most five frames, however many keys the listing holds.
\<close>

theorem run_at_most_five:
  "length (keys date found) \<le> 5 \<and>
   (\<forall>ps fs1. png_files w argv fs = (Inr ps, fs1) \<longrightarrow> length ps \<le> 5) \<and>
   (\<forall>fs'. run w argv fs = (None, fs') \<longrightarrow>
      (\<exists>a. fs' GIF_FILENAME = Some (Animated a) \<and> length (frames a) \<le> 5))"
proof (intro conjI allI impI)
  show "length (keys date found) \<le> 5"
    by (simp add: length_keys)
next
  fix ps fs1
  assume "png_files w argv fs = (Inr ps, fs1)"
  from png_files_Inr [OF this] show "length ps \<le> 5"
    by (auto simp: length_keys)
next
  fix fs'
  assume r: "run w argv fs = (None, fs')"
  then obtain ps fs1 where p: "png_files w argv fs = (Inr ps, fs1)" and a: "assemble ps fs1 = (None, fs')"
    by (cases "png_files w argv fs") (auto simp: run_def split: sum.splits)
  from png_files_Inr [OF p] have "length ps \<le> 5"
    by (auto simp: length_keys)
  with assemble_length [OF a]
  show "\<exists>a. fs' GIF_FILENAME = Some (Animated a) \<and> length (frames a) \<le> 5"
    by auto
qed

lemma seven_keys:
  "keys ''2024_05_01'' seven_scans =
     [''MOB_N0B_2024_05_01_00_15_00'', ''MOB_N0B_2024_05_01_00_20_00'',
      ''MOB_N0B_2024_05_01_00_25_00'', ''MOB_N0B_2024_05_01_00_30_00'',
      ''MOB_N0B_2024_05_01_00_35_00'']"
  by (simp add: keys_def seven_scans_def STATION_def startswith_def)

lemma seven_png_files:
  "fst (png_files (sample_world seven_scans) [] Map.empty) =
     Inr [''nexrad/MOB_N0B_2024_05_01_00_35_00_mercator.png'',
          ''nexrad/MOB_N0B_2024_05_01_00_30_00_mercator.png'',
          ''nexrad/MOB_N0B_2024_05_01_00_25_00_mercator.png'',
          ''nexrad/MOB_N0B_2024_05_01_00_20_00_mercator.png'',
          ''nexrad/MOB_N0B_2024_05_01_00_15_00_mercator.png'']"
  by (simp add: png_files_def utc_date_def sample_world_def
      seven_keys [unfolded seven_scans_def] seven_scans_def process_key_def cdt_sample out_png_eq split_last_def)

lemma seven_run: "fst (run (sample_world seven_scans) [] Map.empty) = None"
  by (simp add: run_def png_files_def utc_date_def sample_world_def
      seven_keys [unfolded seven_scans_def] seven_scans_def process_key_def cdt_sample out_png_eq split_last_def
      assemble_def Image_open_def)


theorem run_at_most_five_witness:
  "length seven_scans = 7 \<and>
   length (keys ''2024_05_01'' seven_scans) \<le> 5 \<and>
   png_files (sample_world seven_scans) [] Map.empty =
     (Inr [''nexrad/MOB_N0B_2024_05_01_00_35_00_mercator.png'',
           ''nexrad/MOB_N0B_2024_05_01_00_30_00_mercator.png'',
           ''nexrad/MOB_N0B_2024_05_01_00_25_00_mercator.png'',
           ''nexrad/MOB_N0B_2024_05_01_00_20_00_mercator.png'',
           ''nexrad/MOB_N0B_2024_05_01_00_15_00_mercator.png''],
      snd (png_files (sample_world seven_scans) [] Map.empty)) \<and>
   run (sample_world seven_scans) [] Map.empty =
     (None, snd (run (sample_world seven_scans) [] Map.empty)) \<and>
   (\<exists>a. snd (run (sample_world seven_scans) [] Map.empty) GIF_FILENAME = Some (Animated a) \<and>
        length (frames a) \<le> 5)"
proof -
  have n: "length seven_scans = 7"
    by (simp add: seven_scans_def)
  have p: "png_files (sample_world seven_scans) [] Map.empty =
     (Inr [''nexrad/MOB_N0B_2024_05_01_00_35_00_mercator.png'',
           ''nexrad/MOB_N0B_2024_05_01_00_30_00_mercator.png'',
           ''nexrad/MOB_N0B_2024_05_01_00_25_00_mercator.png'',
           ''nexrad/MOB_N0B_2024_05_01_00_20_00_mercator.png'',
           ''nexrad/MOB_N0B_2024_05_01_00_15_00_mercator.png''],
      snd (png_files (sample_world seven_scans) [] Map.empty))"
    using seven_png_files by (metis prod.collapse)
  have r: "run (sample_world seven_scans) [] Map.empty =
     (None, snd (run (sample_world seven_scans) [] Map.empty))"
    using seven_run by (metis prod.collapse)
  note t = run_at_most_five [of "''2024_05_01''" seven_scans "sample_world seven_scans" "[]" Map.empty]
  from t have k: "length (keys ''2024_05_01'' seven_scans) \<le> 5"
    by (rule conjunct1)
  from t r have "\<exists>a. snd (run (sample_world seven_scans) [] Map.empty) GIF_FILENAME = Some (Animated a) \<and>
        length (frames a) \<le> 5"
    by blast
  with n k p r show ?thesis by (intro conjI)
qed

lemma two_keys:
  "keys ''2024_05_01'' two_scans =
     [''MOB_N0B_2024_05_01_00_05_00'', ''MOB_N0B_2024_05_01_00_10_00'']"
  by (simp add: keys_def two_scans_def STATION_def startswith_def)

text \<open>
  Claim C1. The claim asks for the frame paths to reach the assembly oldest scan first,
  and the script's comments say the same (\<^verbatim>\<open># Ensure oldest -> newest\<close>, line 120, under
  \<^verbatim>\<open># Create forward-playing GIF\<close>). The keys are sorted ascending and the frames are
  appended in that order, so line 121 reverses a list that is already oldest first. On a
  listing of the scans of 00:05 and 00:10 the keys are in that order, the list that
  reaches the assembly starts with the frame of 00:10, and the animation written shows
  00:10 before 00:05.
\<close>

theorem run_plays_newest_first:
  "keys (utc_date [] (today (sample_world two_scans))) two_scans =
     [''MOB_N0B_2024_05_01_00_05_00'', ''MOB_N0B_2024_05_01_00_10_00''] \<and>
   fst (png_files (sample_world two_scans) [] Map.empty) =
     Inr [''nexrad/MOB_N0B_2024_05_01_00_10_00_mercator.png'',
          ''nexrad/MOB_N0B_2024_05_01_00_05_00_mercator.png''] \<and>
   run (sample_world two_scans) [] Map.empty =
     (None,
      [''nexrad/MOB_N0B_2024_05_01_00_05_00_mercator.png'' \<mapsto> Raster (800, 800),
       ''nexrad/MOB_N0B_2024_05_01_00_10_00_mercator.png'' \<mapsto> Raster (800, 800),
       GIF_FILENAME \<mapsto> Animated
         \<lparr>frames = [Opened ''nexrad/MOB_N0B_2024_05_01_00_10_00_mercator.png'' (800, 800),
                    Resized (Opened ''nexrad/MOB_N0B_2024_05_01_00_05_00_mercator.png'' (800, 800))
                      (800, 800) BILINEAR],
          duration = 800, loop = 0\<rparr>])"
proof (intro conjI)
  show "keys (utc_date [] (today (sample_world two_scans))) two_scans =
     [''MOB_N0B_2024_05_01_00_05_00'', ''MOB_N0B_2024_05_01_00_10_00'']"
    by (simp add: utc_date_def sample_world_def two_keys)
next
  show "fst (png_files (sample_world two_scans) [] Map.empty) =
     Inr [''nexrad/MOB_N0B_2024_05_01_00_10_00_mercator.png'',
          ''nexrad/MOB_N0B_2024_05_01_00_05_00_mercator.png'']"
    by (simp add: png_files_def utc_date_def sample_world_def two_scans_def
        two_keys [unfolded two_scans_def] process_key_def cdt_sample out_png_eq split_last_def)
next
  show "run (sample_world two_scans) [] Map.empty =
     (None,
      [''nexrad/MOB_N0B_2024_05_01_00_05_00_mercator.png'' \<mapsto> Raster (800, 800),
       ''nexrad/MOB_N0B_2024_05_01_00_10_00_mercator.png'' \<mapsto> Raster (800, 800),
       GIF_FILENAME \<mapsto> Animated
         \<lparr>frames = [Opened ''nexrad/MOB_N0B_2024_05_01_00_10_00_mercator.png'' (800, 800),
                    Resized (Opened ''nexrad/MOB_N0B_2024_05_01_00_05_00_mercator.png'' (800, 800))
                      (800, 800) BILINEAR],
          duration = 800, loop = 0\<rparr>])"
    by (simp add: run_def png_files_def utc_date_def sample_world_def two_scans_def
        two_keys [unfolded two_scans_def] process_key_def cdt_sample out_png_eq split_last_def
        assemble_def Image_open_def)
qed

lemma png_files_reversed:
  assumes "png_files w argv fs = (Inr ps, fs1)"
  shows "\<exists>found. listing w (index_url (utc_date argv (today w))) = Inr found \<and>
           ps = rev (map out_png (keys (utc_date argv (today w)) found))"
  using png_files_Inr [OF assms] by blast

end
